theory Spec2Isabelle
  imports Complex_Main "HOL-Library.Stream"
begin

section \<open>Python floats\<close>

text \<open>
  The sampler computes with Python floats (IEEE-754 binary64).  A float is modelled as a
  finite real, one of the two infinities, or NaN.  The range of binary64 is modelled: a
  result of magnitude \<open>2 ^ 1024\<close> or more is an infinity, a result of magnitude at most
  \<open>2 ^ -1075\<close> (half the least subnormal) is zero.  The rounding of the significand to
  53 bits inside that range is not modelled, and the two zeros are one value.
\<close>

datatype pyfloat = Fin real | PInf | NInf | NaN

definition huge :: real where
  "huge = 2 ^ 1024"

definition tiny :: real where
  "tiny = 1 / 2 ^ 1075"

definition dbl :: "real \<Rightarrow> pyfloat" where
  "dbl r = (if huge \<le> r then PInf
            else if r \<le> - huge then NInf
            else if \<bar>r\<bar> \<le> tiny then Fin 0
            else Fin r)"

text \<open>\<open>a - b\<close> on floats: the difference of two infinities of one sign is NaN.\<close>

fun fsub :: "pyfloat \<Rightarrow> pyfloat \<Rightarrow> pyfloat" where
  "fsub NaN b = NaN"
| "fsub a NaN = NaN"
| "fsub (Fin a) (Fin b) = dbl (a - b)"
| "fsub (Fin a) PInf = NInf"
| "fsub (Fin a) NInf = PInf"
| "fsub PInf (Fin b) = PInf"
| "fsub PInf NInf = PInf"
| "fsub PInf PInf = NaN"
| "fsub NInf (Fin b) = NInf"
| "fsub NInf PInf = NInf"
| "fsub NInf NInf = NaN"

text \<open>\<open>a < b\<close> on floats: every comparison with NaN is false.\<close>

fun flt :: "pyfloat \<Rightarrow> pyfloat \<Rightarrow> bool" where
  "flt (Fin a) (Fin b) = (a < b)"
| "flt (Fin a) PInf = True"
| "flt NInf (Fin b) = True"
| "flt NInf PInf = True"
| "flt a b = False"

text \<open>\<open>x / 2\<close> and \<open>x * 2\<close> on a float \<open>x\<close>.\<close>

fun fdiv2 :: "pyfloat \<Rightarrow> pyfloat" where
  "fdiv2 (Fin r) = dbl (r / 2)"
| "fdiv2 x = x"

fun fmul2 :: "pyfloat \<Rightarrow> pyfloat" where
  "fmul2 (Fin r) = dbl (r * 2)"
| "fmul2 x = x"

text \<open>
  \<open>np.log\<close>: the logarithm of zero is minus infinity and that of a negative number is NaN
  (numpy warns and does not raise).
\<close>

fun np_log :: "pyfloat \<Rightarrow> pyfloat" where
  "np_log (Fin u) = (if u = 0 then NInf else if u < 0 then NaN else dbl (ln u))"
| "np_log PInf = PInf"
| "np_log NInf = NaN"
| "np_log NaN = NaN"

section \<open>Exceptions and the random source\<close>

datatype error =
    ZeroDivisionError
  | ValueError
  | TargetError string  \<comment> \<open>whatever the caller's \<open>logTarget\<close> raises\<close>

text \<open>
  The state of numpy's global generator is the stream of the values its calls are going
  to return: each call of \<open>np.random.normal\<close> or \<open>np.random.uniform\<close> takes the head.
\<close>

type_synonym rng = "pyfloat stream"

text \<open>\<open>np.random.normal(loc, scale)\<close> raises \<open>ValueError\<close> on a negative scale.\<close>

definition np_random_normal :: "pyfloat \<Rightarrow> pyfloat \<Rightarrow> rng \<Rightarrow> (error + pyfloat) \<times> rng" where
  "np_random_normal loc scale g =
     (if flt scale (Fin 0) then (Inl ValueError, g) else (Inr (shd g), stl g))"

definition np_random_uniform :: "rng \<Rightarrow> pyfloat \<times> rng" where
  "np_random_uniform g = (shd g, stl g)"

section \<open>The sampler\<close>

text \<open>The value of \<open>acceptanceRate\<close> is an int (the initial \<open>0\<close> of \<open>adapt\<close>) or a float.\<close>

datatype pynum = PyInt int | PyFloat pyfloat

record metropolis =
  logTarget :: "pyfloat \<Rightarrow> error + pyfloat"
  currentState :: pyfloat
  stepSize :: pyfloat
  samples :: "pyfloat list"
  acceptanceRate :: "pynum option"

text \<open>\<open>Metropolis.__init__\<close>\<close>

definition init :: "(pyfloat \<Rightarrow> error + pyfloat) \<Rightarrow> pyfloat \<Rightarrow> metropolis" where
  "init lt initialState =
     \<lparr>logTarget = lt, currentState = initialState, stepSize = Fin 1,
      samples = [initialState], acceptanceRate = None\<rparr>"

text \<open>
  A method mutates the sampler in place and either returns or raises, so it yields the
  outcome (\<open>Inl\<close> the exception), the sampler as the call leaves it, and the generator.
  \<open>Metropolis.__accept\<close>: both calls of \<open>logTarget\<close> come before the uniform draw.
\<close>

definition accept :: "metropolis \<Rightarrow> pyfloat \<Rightarrow> rng \<Rightarrow> (error + bool) \<times> metropolis \<times> rng" where
  "accept s proposal g =
     (case logTarget s proposal of
        Inl e \<Rightarrow> (Inl e, s, g)
      | Inr lp \<Rightarrow>
          (case logTarget s (currentState s) of
             Inl e \<Rightarrow> (Inl e, s, g)
           | Inr lc \<Rightarrow>
               (let logRatio = fsub lp lc;
                    (u, g') = np_random_uniform g
                in if flt (np_log u) logRatio
                   then (Inr True,
                         s\<lparr>currentState := proposal, samples := samples s @ [proposal]\<rparr>, g')
                   else (Inr False, s\<lparr>samples := samples s @ [currentState s]\<rparr>, g'))))"

text \<open>
  The inner loop of \<open>adapt\<close>, \<open>for i in range(blockLength)\<close>, with \<open>accepts\<close> as
  accumulator: \<open>range\<close> of a negative number is empty, so the loop runs
  \<open>nat blockLength\<close> times.
\<close>

fun block_loop :: "nat \<Rightarrow> int \<Rightarrow> metropolis \<Rightarrow> rng \<Rightarrow> (error + int) \<times> metropolis \<times> rng" where
  "block_loop 0 accepts s g = (Inr accepts, s, g)"
| "block_loop (Suc k) accepts s g =
     (case np_random_normal (currentState s) (stepSize s) g of
        (Inl e, g1) \<Rightarrow> (Inl e, s, g1)
      | (Inr proposal, g1) \<Rightarrow>
          (case accept s proposal g1 of
             (Inl e, s', g') \<Rightarrow> (Inl e, s', g')
           | (Inr b, s', g') \<Rightarrow> block_loop k (accepts + (if b then 1 else 0)) s' g'))"

text \<open>\<open>accepts / blockLength\<close>: true division of two ints.\<close>

definition int_truediv :: "int \<Rightarrow> int \<Rightarrow> error + pyfloat" where
  "int_truediv a b =
     (if b = 0 then Inl ZeroDivisionError else Inr (dbl (real_of_int a / real_of_int b)))"

text \<open>The step-size update at the end of a block.\<close>

definition retune :: "pyfloat \<Rightarrow> metropolis \<Rightarrow> metropolis" where
  "retune rate s =
     (if flt rate (Fin (1 / 10)) then s\<lparr>stepSize := fdiv2 (stepSize s)\<rparr>
      else if flt (Fin (6 / 10)) rate then s\<lparr>stepSize := fmul2 (stepSize s)\<rparr>
      else s)"

text \<open>
  The outer loop of \<open>adapt\<close>, \<open>for blockLength in blockLengths\<close>, with the local
  \<open>acceptanceRate\<close> as accumulator.
\<close>

fun adapt_loop :: "int list \<Rightarrow> pynum \<Rightarrow> metropolis \<Rightarrow> rng \<Rightarrow> (error + pynum) \<times> metropolis \<times> rng" where
  "adapt_loop [] rate s g = (Inr rate, s, g)"
| "adapt_loop (blockLength # rest) rate s g =
     (case block_loop (nat blockLength) 0 s g of
        (Inl e, s1, g1) \<Rightarrow> (Inl e, s1, g1)
      | (Inr accepts, s1, g1) \<Rightarrow>
          (case int_truediv accepts blockLength of
             Inl e \<Rightarrow> (Inl e, s1, g1)
           | Inr r \<Rightarrow> adapt_loop rest (PyFloat r) (retune r s1) g1))"

text \<open>\<open>Metropolis.adapt\<close>; \<open>return self\<close> is the sampler of the outcome.\<close>

definition adapt :: "metropolis \<Rightarrow> int list \<Rightarrow> rng \<Rightarrow> (error + unit) \<times> metropolis \<times> rng" where
  "adapt s blockLengths g =
     (case adapt_loop blockLengths (PyInt 0) s g of
        (Inl e, s', g') \<Rightarrow> (Inl e, s', g')
      | (Inr rate, s', g') \<Rightarrow> (Inr (), s'\<lparr>acceptanceRate := Some rate\<rparr>, g'))"

text \<open>The loop of \<open>sample\<close>, \<open>for i in range(nSamples)\<close>.\<close>

fun sample_loop :: "nat \<Rightarrow> metropolis \<Rightarrow> rng \<Rightarrow> (error + unit) \<times> metropolis \<times> rng" where
  "sample_loop 0 s g = (Inr (), s, g)"
| "sample_loop (Suc k) s g =
     (case np_random_normal (currentState s) (stepSize s) g of
        (Inl e, g1) \<Rightarrow> (Inl e, s, g1)
      | (Inr proposal, g1) \<Rightarrow>
          (case accept s proposal g1 of
             (Inl e, s', g') \<Rightarrow> (Inl e, s', g')
           | (Inr b, s', g') \<Rightarrow> sample_loop k s' g'))"

text \<open>\<open>Metropolis.sample\<close>; \<open>return self\<close> is the sampler of the outcome.\<close>

definition sample :: "metropolis \<Rightarrow> int \<Rightarrow> rng \<Rightarrow> (error + unit) \<times> metropolis \<times> rng" where
  "sample s nSamples g = sample_loop (nat nSamples) s g"

section \<open>A caller's session\<close>

text \<open>
  The public operations a caller applies to one sampler after constructing it, in order;
  an exception ends the session.
\<close>

datatype call = Adapt "int list" | Sample int

fun perform :: "call \<Rightarrow> metropolis \<Rightarrow> rng \<Rightarrow> (error + unit) \<times> metropolis \<times> rng" where
  "perform (Adapt blockLengths) s g = adapt s blockLengths g"
| "perform (Sample nSamples) s g = sample s nSamples g"

fun run :: "call list \<Rightarrow> metropolis \<Rightarrow> rng \<Rightarrow> (error + unit) \<times> metropolis \<times> rng" where
  "run [] s g = (Inr (), s, g)"
| "run (c # cs) s g =
     (case perform c s g of
        (Inl e, s', g') \<Rightarrow> (Inl e, s', g')
      | (Inr u, s', g') \<Rightarrow> run cs s' g')"

text \<open>The accept/reject iterations a call asks for, and the adaptation blocks it holds.\<close>

fun iterations :: "call \<Rightarrow> nat" where
  "iterations (Adapt blockLengths) = sum_list (map nat blockLengths)"
| "iterations (Sample nSamples) = nat nSamples"

fun blocks :: "call \<Rightarrow> nat" where
  "blocks (Adapt blockLengths) = length blockLengths"
| "blocks (Sample nSamples) = 0"


section \<open>Targets and generators for concrete runs\<close>

text \<open>A flat log-density, a point mass at zero, a density that is zero everywhere, and a
  log-density that is defined at zero only and raises elsewhere.\<close>

definition flat_target :: "pyfloat \<Rightarrow> error + pyfloat" where
  "flat_target x = Inr (Fin 0)"

definition spike_target :: "pyfloat \<Rightarrow> error + pyfloat" where
  "spike_target x = (if x = Fin 0 then Inr (Fin 0) else Inr NInf)"

definition void_target :: "pyfloat \<Rightarrow> error + pyfloat" where
  "void_target x = Inr NInf"

definition partial_target :: "pyfloat \<Rightarrow> error + pyfloat" where
  "partial_target x = (if x = Fin 0 then Inr (Fin 0) else Inl (TargetError ''domain''))"

text \<open>A generator whose every call returns \<open>0.5\<close>.\<close>

definition halves :: rng where
  "halves = sconst (Fin (1 / 2))"

text \<open>
  A generator for a sampler that sits at zero and rejects every proposal while each block
  halves its step size: in iteration \<open>i\<close> the normal draw returns \<open>2 ^ -i\<close> (one step size
  away from zero) and the uniform draw returns \<open>0.5\<close>.  \<open>shrinking i\<close> is the generator
  before iteration \<open>i\<close>.
\<close>

definition shrinking :: "nat \<Rightarrow> rng" where
  "shrinking i =
     smap (\<lambda>j. if even j then Fin (1 / 2 ^ (j div 2)) else Fin (1 / 2)) (fromN (2 * i))"

text \<open>A float that is finite and between \<open>2 ^ -n\<close> and \<open>2 ^ n\<close>.\<close>

definition in_range :: "nat \<Rightarrow> pyfloat \<Rightarrow> bool" where
  "in_range n x = (case x of Fin r \<Rightarrow> 1 / 2 ^ n \<le> r \<and> r \<le> 2 ^ n | _ \<Rightarrow> False)"

section \<open>Facts about the float model\<close>

lemma ln2_bounds: "1 / 2 \<le> ln (2::real)" "ln (2::real) < 1"
  using ln_add1_ge[of 1] ln_2_less_1 by simp_all

lemma tiny_pos: "0 < tiny"
  by (simp add: tiny_def)

lemma tiny_less_half: "tiny < 1 / 2"
proof -
  have "(2::real) ^ 1 < 2 ^ 1075" by (rule power_strict_increasing) simp_all
  then have "1 / (2::real) ^ 1075 < 1 / 2 ^ 1"
    by (intro divide_strict_left_mono) simp_all
  then show ?thesis by (simp add: tiny_def)
qed

lemma one_less_huge: "1 < huge"
  unfolding huge_def by (rule one_less_power) simp_all

lemma dbl_zero [simp]: "dbl 0 = Fin 0"
  using tiny_pos one_less_huge by (simp add: dbl_def)

lemma dbl_id: "tiny < \<bar>r\<bar> \<Longrightarrow> \<bar>r\<bar> < huge \<Longrightarrow> dbl r = Fin r"
  by (auto simp: dbl_def)

lemma dbl_one [simp]: "dbl 1 = Fin 1"
  using tiny_less_half one_less_huge by (intro dbl_id) simp_all

lemma np_log_half: "np_log (Fin (1 / 2)) = Fin (- ln 2)"
proof -
  have "ln (1 / 2 :: real) = - ln 2" by (simp add: ln_div)
  moreover have "dbl (- ln 2) = Fin (- ln 2)"
    using ln2_bounds tiny_less_half one_less_huge by (intro dbl_id) simp_all
  ultimately show ?thesis by simp
qed

lemma flt_log_half_zero: "flt (np_log (Fin (1 / 2))) (Fin 0)"
  using ln2_bounds by (simp add: np_log_half del: np_log.simps)

lemma flt_neg_inf_right: "flt x NInf = False"
  by (cases x) simp_all

lemma flt_nan_right: "flt x NaN = False"
  by (cases x) simp_all

lemma halves_sel: "shd halves = Fin (1 / 2)" "stl halves = halves"
  by (simp_all add: halves_def)

lemma init_sel [simp]:
  "logTarget (init lt x) = lt" "currentState (init lt x) = x" "stepSize (init lt x) = Fin 1"
  "samples (init lt x) = [x]" "acceptanceRate (init lt x) = None"
  by (simp_all add: init_def)

section \<open>The accept/reject step\<close>

lemma accept_frame:
  assumes "accept s proposal g = (r, s', g')"
  shows "logTarget s' = logTarget s \<and> stepSize s' = stepSize s \<and>
         acceptanceRate s' = acceptanceRate s"
  using assms
  by (auto simp: accept_def np_random_uniform_def Let_def split: sum.splits if_splits)

lemma accept_length:
  assumes "accept s proposal g = (Inr b, s', g')"
  shows "length (samples s') = Suc (length (samples s))"
  using assms
  by (auto simp: accept_def np_random_uniform_def Let_def split: sum.splits if_splits)

lemma accept_error_state:
  assumes "accept s proposal g = (Inl e, s', g')"
  shows "s' = s \<and> g' = g"
  using assms
  by (auto simp: accept_def np_random_uniform_def Let_def split: sum.splits if_splits)

text \<open>The accept/reject step on the concrete targets, with the draw \<open>0.5\<close>.\<close>

lemma accept_flat:
  "logTarget s = flat_target \<Longrightarrow>
   accept s proposal halves =
     (Inr True, s\<lparr>currentState := proposal, samples := samples s @ [proposal]\<rparr>, halves)"
  using flt_log_half_zero
  by (simp add: accept_def np_random_uniform_def flat_target_def halves_sel del: np_log.simps)

lemma accept_spike:
  "logTarget s = spike_target \<Longrightarrow> currentState s = Fin 0 \<Longrightarrow> proposal \<noteq> Fin 0 \<Longrightarrow>
   accept s proposal g = (Inr False, s\<lparr>samples := samples s @ [Fin 0]\<rparr>, stl g)"
  by (simp add: accept_def np_random_uniform_def spike_target_def flt_neg_inf_right
      del: np_log.simps)



text \<open>
  C2.  An iteration that returns appends exactly one value to the history; when it
  rejects, \<open>currentState\<close> is unchanged and the appended value is the \<open>currentState\<close> of
  before the iteration, and nothing else of the sampler changes.
\<close>

theorem accept_rejection:
  assumes "accept s proposal g = (Inr b, s', g')"
  shows "length (samples s') = Suc (length (samples s)) \<and>
         (\<not> b \<longrightarrow> currentState s' = currentState s \<and>
                  samples s' = samples s @ [currentState s] \<and>
                  s' = s\<lparr>samples := samples s @ [currentState s]\<rparr>)"
  using assms
  by (auto simp: accept_def np_random_uniform_def Let_def split: sum.splits if_splits)

text \<open>The rejection is forced as the specification suggests: \<open>logTarget\<close> is minus
  infinity at the proposal.\<close>

theorem accept_rejection_witness:
  "accept (init spike_target (Fin 0)) (Fin 1) halves =
     (Inr False, (init spike_target (Fin 0))\<lparr>samples := [Fin 0, Fin 0]\<rparr>, halves)
   \<and> length (samples ((init spike_target (Fin 0))\<lparr>samples := [Fin 0, Fin 0]\<rparr>)) =
       Suc (length (samples (init spike_target (Fin 0))))
   \<and> currentState ((init spike_target (Fin 0))\<lparr>samples := [Fin 0, Fin 0]\<rparr>) =
       currentState (init spike_target (Fin 0))
   \<and> samples ((init spike_target (Fin 0))\<lparr>samples := [Fin 0, Fin 0]\<rparr>) =
       samples (init spike_target (Fin 0)) @ [currentState (init spike_target (Fin 0))]"
proof -
  have h: "accept (init spike_target (Fin 0)) (Fin 1) halves =
     (Inr False, (init spike_target (Fin 0))\<lparr>samples := [Fin 0, Fin 0]\<rparr>, halves)"
    using accept_spike [of "init spike_target (Fin 0)" "Fin 1" halves]
    by (simp add: init_def halves_sel)
  from accept_rejection [OF h] h show ?thesis by blast
qed

text \<open>
  C7.  When \<open>logTarget\<close> is minus infinity at the proposal and at the current state, the
  log-ratio is NaN and the comparison with it is false, so the iteration rejects whatever
  the uniform draw is: it returns \<open>False\<close>, raises nothing, leaves \<open>currentState\<close> as it
  was and appends it to the history.
\<close>

theorem accept_both_neg_inf:
  assumes "logTarget s proposal = Inr NInf" and "logTarget s (currentState s) = Inr NInf"
  shows "accept s proposal g =
           (Inr False, s\<lparr>samples := samples s @ [currentState s]\<rparr>, stl g)"
  using assms by (simp add: accept_def np_random_uniform_def del: np_log.simps)

text \<open>On a target that is minus infinity everywhere the draw \<open>0.5\<close> rejects.\<close>

theorem accept_both_neg_inf_witness:
  "logTarget (init void_target (Fin 0)) (Fin 1) = Inr NInf
   \<and> logTarget (init void_target (Fin 0)) (currentState (init void_target (Fin 0))) =
       Inr NInf
   \<and> accept (init void_target (Fin 0)) (Fin 1) halves =
       (Inr False, (init void_target (Fin 0))\<lparr>samples := [Fin 0, Fin 0]\<rparr>, halves)"
proof -
  have h1: "logTarget (init void_target (Fin 0)) (Fin 1) = Inr NInf"
    by (simp add: void_target_def)
  have h2: "logTarget (init void_target (Fin 0)) (currentState (init void_target (Fin 0))) =
      Inr NInf"
    by (simp add: void_target_def)
  from accept_both_neg_inf [OF h1 h2, of halves]
  have "accept (init void_target (Fin 0)) (Fin 1) halves =
       (Inr False, (init void_target (Fin 0))\<lparr>samples := [Fin 0, Fin 0]\<rparr>, halves)"
    by (simp add: halves_sel)
  with h1 h2 show ?thesis by blast
qed

section \<open>The loops\<close>

lemma normal_draw:
  "\<not> flt scale (Fin 0) \<Longrightarrow> np_random_normal loc scale g = (Inr (shd g), stl g)"
  by (simp add: np_random_normal_def)

lemma sample_loop_frame:
  "sample_loop k s g = (r, s', g') \<Longrightarrow>
     logTarget s' = logTarget s \<and> stepSize s' = stepSize s \<and>
     acceptanceRate s' = acceptanceRate s"
proof (induction k arbitrary: s g)
  case 0
  then show ?case by simp
next
  case (Suc k)
  then show ?case
    by (fastforce split: prod.splits sum.splits dest: accept_frame)
qed

lemma sample_loop_length:
  "sample_loop k s g = (Inr u, s', g') \<Longrightarrow> length (samples s') = length (samples s) + k"
proof (induction k arbitrary: s g)
  case 0
  then show ?case by simp
next
  case (Suc k)
  then show ?case
    by (fastforce split: prod.splits sum.splits dest: accept_length)
qed

lemma block_loop_frame:
  "block_loop k a s g = (r, s', g') \<Longrightarrow>
     logTarget s' = logTarget s \<and> stepSize s' = stepSize s \<and>
     acceptanceRate s' = acceptanceRate s"
proof (induction k arbitrary: a s g)
  case 0
  then show ?case by simp
next
  case (Suc k)
  then show ?case
    by (fastforce split: prod.splits sum.splits dest: accept_frame)
qed

lemma block_loop_length:
  "block_loop k a s g = (Inr a', s', g') \<Longrightarrow>
     length (samples s') = length (samples s) + k \<and> a \<le> a' \<and> a' \<le> a + int k"
proof (induction k arbitrary: a s g)
  case 0
  then show ?case by simp
next
  case (Suc k)
  then show ?case
    by (fastforce split: prod.splits sum.splits if_splits dest: accept_length)
qed

lemma sample_loop_total:
  assumes "\<And>x. \<exists>v. logTarget s x = Inr v" and "\<not> flt (stepSize s) (Fin 0)"
  shows "\<exists>s' g'. sample_loop k s g = (Inr (), s', g')"
  using assms
proof (induction k arbitrary: s g)
  case 0
  then show ?case by simp
next
  case (Suc k)
  obtain ra sa ga where acc: "accept s (shd g) (stl g) = (ra, sa, ga)"
    by (cases "accept s (shd g) (stl g)") auto
  from Suc.prems(1) obtain lp lc where
    "logTarget s (shd g) = Inr lp" "logTarget s (currentState s) = Inr lc"
    by metis
  with acc obtain b where b: "ra = Inr b"
    by (auto simp: accept_def np_random_uniform_def Let_def split: if_splits)
  from accept_frame[OF acc] Suc.prems
  have "\<And>x. \<exists>v. logTarget sa x = Inr v" "\<not> flt (stepSize sa) (Fin 0)" by simp_all
  from Suc.IH[OF this] obtain s' g' where "sample_loop k sa ga = (Inr (), s', g')" by blast
  with acc b Suc.prems(2) show ?case
    by (simp add: np_random_normal_def)
qed

lemma retune_frame:
  "logTarget (retune r s) = logTarget s \<and> currentState (retune r s) = currentState s \<and>
   samples (retune r s) = samples s \<and> acceptanceRate (retune r s) = acceptanceRate s"
  by (simp add: retune_def)

lemma adapt_loop_frame:
  "adapt_loop bs r s g = (out, s', g') \<Longrightarrow>
     logTarget s' = logTarget s \<and> acceptanceRate s' = acceptanceRate s"
proof (induction bs arbitrary: r s g)
  case Nil
  then show ?case by simp
next
  case (Cons b bs)
  obtain o1 s1 g1 where bl: "block_loop (nat b) 0 s g = (o1, s1, g1)"
    by (cases "block_loop (nat b) 0 s g") auto
  note fr = block_loop_frame[OF bl]
  show ?case
  proof (cases o1)
    case (Inl e)
    with bl Cons.prems fr show ?thesis by simp
  next
    case (Inr a)
    show ?thesis
    proof (cases "int_truediv a b")
      case (Inl e)
      with bl Inr Cons.prems fr show ?thesis by simp
    next
      case (Inr q)
      with bl \<open>o1 = Inr a\<close> Cons.prems
      have "adapt_loop bs (PyFloat q) (retune q s1) g1 = (out, s', g')" by simp
      from Cons.IH[OF this] fr show ?thesis by (simp add: retune_frame)
    qed
  qed
qed

lemma adapt_loop_length:
  "adapt_loop bs r s g = (Inr r', s', g') \<Longrightarrow>
     length (samples s') = length (samples s) + sum_list (map nat bs)"
proof (induction bs arbitrary: r s g)
  case Nil
  then show ?case by simp
next
  case (Cons b bs)
  obtain o1 s1 g1 where bl: "block_loop (nat b) 0 s g = (o1, s1, g1)"
    by (cases "block_loop (nat b) 0 s g") auto
  show ?case
  proof (cases o1)
    case (Inl e)
    with bl Cons.prems show ?thesis by simp
  next
    case (Inr a)
    note len = block_loop_length[OF bl[unfolded Inr]]
    show ?thesis
    proof (cases "int_truediv a b")
      case (Inl e)
      with bl Inr Cons.prems show ?thesis by simp
    next
      case (Inr q)
      with bl \<open>o1 = Inr a\<close> Cons.prems
      have "adapt_loop bs (PyFloat q) (retune q s1) g1 = (Inr r', s', g')" by simp
      from Cons.IH[OF this] len show ?thesis by (simp add: retune_frame)
    qed
  qed
qed

lemma adapt_length:
  "adapt s bs g = (Inr u, s', g') \<Longrightarrow>
     length (samples s') = length (samples s) + sum_list (map nat bs)"
  by (auto simp: adapt_def split: prod.splits sum.splits dest: adapt_loop_length)

lemma perform_length:
  "perform c s g = (Inr u, s', g') \<Longrightarrow>
     length (samples s') = length (samples s) + iterations c"
  by (cases c) (auto simp: sample_def dest: adapt_length sample_loop_length)

lemma run_length:
  "run cs s g = (Inr u, s', g') \<Longrightarrow>
     length (samples s') = length (samples s) + sum_list (map iterations cs)"
proof (induction cs arbitrary: s g)
  case Nil
  then show ?case by simp
next
  case (Cons c cs)
  obtain o1 s1 g1 where p: "perform c s g = (o1, s1, g1)"
    by (cases "perform c s g") auto
  show ?case
  proof (cases o1)
    case (Inl e)
    with p Cons.prems show ?thesis by simp
  next
    case (Inr v)
    with p Cons.prems have "run cs s1 g1 = (Inr u, s', g')" by simp
    from Cons.IH[OF this] perform_length[OF p[unfolded Inr]] show ?thesis by simp
  qed
qed

lemma huge_gt_4: "4 < huge"
proof -
  have "(2::real) ^ 2 < 2 ^ 1024" by (rule power_strict_increasing) simp_all
  then show ?thesis by (simp add: huge_def)
qed

lemma dbl_two [simp]: "dbl 2 = Fin 2"
  using tiny_less_half huge_gt_4 by (intro dbl_id) simp_all

lemma dbl_four [simp]: "dbl 4 = Fin 4"
  using tiny_less_half huge_gt_4 by (intro dbl_id) simp_all

lemma adapt_loop_append:
  "adapt_loop (xs @ ys) r s g =
     (case adapt_loop xs r s g of
        (Inl e, s1, g1) \<Rightarrow> (Inl e, s1, g1)
      | (Inr r1, s1, g1) \<Rightarrow> adapt_loop ys r1 s1 g1)"
  by (induction xs arbitrary: r s g) (auto split: prod.splits sum.splits)

text \<open>Concrete runs on the flat target: every proposal is accepted.\<close>

lemma sample_flat_2:
  "sample (init flat_target (Fin 0)) 2 halves =
     (Inr (), (init flat_target (Fin 0))\<lparr>currentState := Fin (1 / 2),
        samples := [Fin 0, Fin (1 / 2), Fin (1 / 2)]\<rparr>, halves)"
  by (simp add: sample_def eval_nat_numeral normal_draw accept_flat halves_sel)

section \<open>The public operations\<close>

text \<open>
  C3.  A call \<open>sample(n)\<close> with \<open>n \<ge> 0\<close> that returns has made the history longer by
  exactly \<open>n\<close>, and it does return when \<open>logTarget\<close> never raises (and the step size is
  not negative); after any session of calls that returned, the length of the history is
  1, for the seed state, plus the number of iterations of all adaptation blocks and all
  sampling calls.
\<close>

theorem history_growth:
  "(0 \<le> n \<and> sample s n g = (Inr u, s', g') \<longrightarrow>
      int (length (samples s')) = int (length (samples s)) + n)
   \<and> ((\<forall>x. \<exists>v. logTarget s x = Inr v) \<and> \<not> flt (stepSize s) (Fin 0) \<longrightarrow>
        (\<exists>s1 g1. sample s n g = (Inr (), s1, g1)))
   \<and> (run cs (init lt x0) g = (Inr v, t, h) \<longrightarrow>
        length (samples t) = 1 + sum_list (map iterations cs))"
proof (intro conjI impI)
  assume "0 \<le> n \<and> sample s n g = (Inr u, s', g')"
  then show "int (length (samples s')) = int (length (samples s)) + n"
    using sample_loop_length[of "nat n" s g u s' g'] by (simp add: sample_def)
next
  assume "(\<forall>x. \<exists>v. logTarget s x = Inr v) \<and> \<not> flt (stepSize s) (Fin 0)"
  then show "\<exists>s1 g1. sample s n g = (Inr (), s1, g1)"
    using sample_loop_total[of s "nat n" g] by (simp add: sample_def)
next
  assume "run cs (init lt x0) g = (Inr v, t, h)"
  from run_length[OF this] show "length (samples t) = 1 + sum_list (map iterations cs)"
    by (simp add: init_def)
qed

lemma session_flat:
  "run [Sample 2, Adapt [1], Sample 1] (init flat_target (Fin 0)) halves =
     (Inr (), (init flat_target (Fin 0))\<lparr>currentState := Fin (1 / 2), stepSize := Fin 2,
        samples := [Fin 0, Fin (1 / 2), Fin (1 / 2), Fin (1 / 2), Fin (1 / 2)],
        acceptanceRate := Some (PyFloat (Fin 1))\<rparr>, halves)"
  unfolding run.simps perform.simps sample_flat_2
  by (simp add: sample_def adapt_def int_truediv_def retune_def
      normal_draw accept_flat halves_sel)

theorem history_growth_witness:
  "(0::int) \<le> 2
   \<and> sample (init flat_target (Fin 0)) 2 halves =
       (Inr (), (init flat_target (Fin 0))\<lparr>currentState := Fin (1 / 2),
          samples := [Fin 0, Fin (1 / 2), Fin (1 / 2)]\<rparr>, halves)
   \<and> int (length [Fin 0, Fin (1 / 2), Fin (1 / 2) :: pyfloat]) =
       int (length [Fin 0 :: pyfloat]) + 2
   \<and> run [Sample 2, Adapt [1], Sample 1] (init flat_target (Fin 0)) halves =
       (Inr (), (init flat_target (Fin 0))\<lparr>currentState := Fin (1 / 2), stepSize := Fin 2,
          samples := [Fin 0, Fin (1 / 2), Fin (1 / 2), Fin (1 / 2), Fin (1 / 2)],
          acceptanceRate := Some (PyFloat (Fin 1))\<rparr>, halves)
   \<and> length [Fin 0, Fin (1 / 2), Fin (1 / 2), Fin (1 / 2), Fin (1 / 2) :: pyfloat] =
       1 + sum_list (map iterations [Sample 2, Adapt [1], Sample 1])"
proof -
  note a = sample_flat_2
  note b = session_flat
  have t: "(\<forall>x. \<exists>v. logTarget (init flat_target (Fin 0)) x = Inr v) \<and>
      \<not> flt (stepSize (init flat_target (Fin 0))) (Fin 0)"
    by (simp add: init_def flat_target_def)
  from history_growth [where n = 2 and s = "init flat_target (Fin 0)" and g = halves
      and cs = "[Sample 2, Adapt [1], Sample 1]" and lt = flat_target and ?x0.0 = "Fin 0"]
    a b t
  show ?thesis by simp
qed

text \<open>
  C10.  For \<open>n \<le> 0\<close> the call \<open>sample(n)\<close> raises nothing and changes nothing: it
  returns the sampler as it was, and takes no draw from the generator.
\<close>

theorem sample_nonpositive:
  "n \<le> 0 \<Longrightarrow> sample s n g = (Inr (), s, g)"
  by (simp add: sample_def)

theorem sample_nonpositive_witness:
  "(-3::int) \<le> 0 \<and> sample (init flat_target (Fin 0)) (-3) halves = (Inr (), init flat_target (Fin 0), halves)"
proof -
  have h: "(-3::int) \<le> 0" by simp
  from sample_nonpositive [OF h] h show ?thesis by blast
qed

text \<open>
  C5 (amended).  \<open>adapt([])\<close> returns the sampler with \<open>stepSize\<close>, \<open>currentState\<close> and
  the history unchanged, and sets \<open>acceptanceRate\<close> to the int \<open>0\<close> that the local
  variable of \<open>adapt\<close> starts with.
\<close>

theorem adapt_empty:
  "adapt s [] g = (Inr (), s\<lparr>acceptanceRate := Some (PyInt 0)\<rparr>, g)"
  by (simp add: adapt_def)

text \<open>Counterexample to C5 as stated: after \<open>adapt([])\<close> on a new sampler
  \<open>acceptanceRate\<close> is no longer \<open>None\<close>.\<close>

theorem adapt_empty_counterexample:
  "acceptanceRate (init flat_target (Fin 0)) = None \<and>
   acceptanceRate (fst (snd (adapt (init flat_target (Fin 0)) [] halves))) \<noteq> None"
  by (simp add: adapt_def init_def)



lemma tiny_less_tenth: "tiny < 1 / 10"
proof -
  have "(2::real) ^ 4 < 2 ^ 1075" by (rule power_strict_increasing) simp_all
  then have "1 / (2::real) ^ 1075 < 1 / 2 ^ 4"
    by (intro divide_strict_left_mono) simp_all
  then show ?thesis by (simp add: tiny_def)
qed

lemma rate_low: "0 \<le> q \<Longrightarrow> q \<le> 1 \<Longrightarrow> flt (dbl q) (Fin (1 / 10)) = (q < 1 / 10)"
  using tiny_less_tenth one_less_huge by (auto simp: dbl_def)

lemma rate_high: "0 \<le> q \<Longrightarrow> q \<le> 1 \<Longrightarrow> flt (Fin (6 / 10)) (dbl q) = (6 / 10 < q)"
  using tiny_less_tenth one_less_huge by (auto simp: dbl_def)

lemma rate_range:
  assumes "0 < L" and "0 \<le> a" and "a \<le> L"
  shows "0 \<le> real_of_int a / real_of_int L \<and> real_of_int a / real_of_int L \<le> 1"
  using assms by simp


lemma adapt_loop_flat_2:
  "adapt_loop [2] (PyInt 0) (init flat_target (Fin 0)) halves =
     (Inr (PyFloat (Fin 1)),
      (init flat_target (Fin 0))\<lparr>currentState := Fin (1 / 2), stepSize := Fin 2,
         samples := [Fin 0, Fin (1 / 2), Fin (1 / 2)]\<rparr>, halves)"
  by (simp add: eval_nat_numeral int_truediv_def retune_def normal_draw accept_flat halves_sel)

lemma block_loop_flat_1:
  "block_loop (nat 1) 0
     ((init flat_target (Fin 0))\<lparr>currentState := Fin (1 / 2), stepSize := Fin 2,
         samples := [Fin 0, Fin (1 / 2), Fin (1 / 2)]\<rparr>) halves =
     (Inr 1,
      (init flat_target (Fin 0))\<lparr>currentState := Fin (1 / 2), stepSize := Fin 2,
         samples := [Fin 0, Fin (1 / 2), Fin (1 / 2), Fin (1 / 2)]\<rparr>, halves)"
  by (simp add: normal_draw accept_flat halves_sel)


text \<open>
  C6 (amended).  A zero in the block-length sequence makes \<open>adapt\<close> raise
  \<open>ZeroDivisionError\<close> when it reaches that block.  When the zero is the first block the
  sampler is unchanged.  The blocks before the zero have run by then: the sampler is as
  they left it, with one history entry more for each of their iterations and the step
  size they tuned; \<open>acceptanceRate\<close> is not assigned.
\<close>

theorem adapt_zero_block:
  "adapt s (0 # later) g = (Inl ZeroDivisionError, s, g)
   \<and> (adapt_loop earlier (PyInt 0) s g = (Inr r1, s1, g1) \<longrightarrow>
        adapt s (earlier @ 0 # later) g = (Inl ZeroDivisionError, s1, g1)
        \<and> length (samples s1) = length (samples s) + sum_list (map nat earlier)
        \<and> acceptanceRate s1 = acceptanceRate s)"
proof (intro conjI impI)
  show "adapt s (0 # later) g = (Inl ZeroDivisionError, s, g)"
    by (simp add: adapt_def int_truediv_def)
next
  assume h: "adapt_loop earlier (PyInt 0) s g = (Inr r1, s1, g1)"
  then show "adapt s (earlier @ 0 # later) g = (Inl ZeroDivisionError, s1, g1)"
    by (simp add: adapt_def adapt_loop_append int_truediv_def)
  from adapt_loop_length[OF h]
  show "length (samples s1) = length (samples s) + sum_list (map nat earlier)" .
  from adapt_loop_frame[OF h] show "acceptanceRate s1 = acceptanceRate s" by simp
qed

lemma adapt_loop_flat_1:
  "adapt_loop [1] (PyInt 0) (init flat_target (Fin 0)) halves =
     (Inr (PyFloat (Fin 1)),
      (init flat_target (Fin 0))\<lparr>currentState := Fin (1 / 2), stepSize := Fin 2,
         samples := [Fin 0, Fin (1 / 2)]\<rparr>, halves)"
  by (simp add: int_truediv_def retune_def normal_draw accept_flat halves_sel)

theorem adapt_zero_block_witness:
  "adapt_loop [1] (PyInt 0) (init flat_target (Fin 0)) halves =
     (Inr (PyFloat (Fin 1)),
      (init flat_target (Fin 0))\<lparr>currentState := Fin (1 / 2), stepSize := Fin 2,
         samples := [Fin 0, Fin (1 / 2)]\<rparr>, halves)
   \<and> adapt (init flat_target (Fin 0)) [1, 0, 5] halves =
       (Inl ZeroDivisionError,
        (init flat_target (Fin 0))\<lparr>currentState := Fin (1 / 2), stepSize := Fin 2,
           samples := [Fin 0, Fin (1 / 2)]\<rparr>, halves)"
proof -
  from adapt_zero_block [of "init flat_target (Fin 0)" "[5]" halves "[1]"] adapt_loop_flat_1
  have "adapt (init flat_target (Fin 0)) ([1] @ 0 # [5]) halves =
       (Inl ZeroDivisionError,
        (init flat_target (Fin 0))\<lparr>currentState := Fin (1 / 2), stepSize := Fin 2,
           samples := [Fin 0, Fin (1 / 2)]\<rparr>, halves)"
    by blast
  with adapt_loop_flat_1 show ?thesis by simp
qed

text \<open>Counterexample to C6 as stated: \<open>adapt([1, 0])\<close> raises after the first block
  has run, and the sampler keeps the history entry and the step size of that block.\<close>

theorem adapt_zero_block_counterexample:
  "fst (adapt (init flat_target (Fin 0)) [1, 0] halves) = Inl ZeroDivisionError
   \<and> samples (fst (snd (adapt (init flat_target (Fin 0)) [1, 0] halves))) =
       [Fin 0, Fin (1 / 2)]
   \<and> samples (fst (snd (adapt (init flat_target (Fin 0)) [1, 0] halves))) \<noteq>
       samples (init flat_target (Fin 0))
   \<and> stepSize (fst (snd (adapt (init flat_target (Fin 0)) [1, 0] halves))) \<noteq>
       stepSize (init flat_target (Fin 0))"
proof -
  have "adapt (init flat_target (Fin 0)) [1, 0] halves =
       (Inl ZeroDivisionError,
        (init flat_target (Fin 0))\<lparr>currentState := Fin (1 / 2), stepSize := Fin 2,
           samples := [Fin 0, Fin (1 / 2)]\<rparr>, halves)"
    by (simp add: adapt_def int_truediv_def retune_def normal_draw accept_flat halves_sel)
  then show ?thesis by simp
qed

section \<open>The step size\<close>

lemma shrinking_sel:
  "shd (shrinking i) = Fin (1 / 2 ^ i)"
  "shd (stl (shrinking i)) = Fin (1 / 2)"
  "stl (stl (shrinking i)) = shrinking (Suc i)"
  by (simp_all add: shrinking_def)

lemma fdiv2_not_negative: "\<not> flt x (Fin 0) \<Longrightarrow> \<not> flt (fdiv2 x) (Fin 0)"
  using tiny_pos one_less_huge by (cases x) (auto simp: dbl_def)

lemma block_spike:
  assumes "logTarget s = spike_target" and "currentState s = Fin 0"
    and "\<not> flt (stepSize s) (Fin 0)"
  shows "block_loop (nat 1) 0 s (shrinking i) =
           (Inr 0, s\<lparr>samples := samples s @ [Fin 0]\<rparr>, shrinking (Suc i))"
proof -
  have "Fin (1 / 2 ^ i) \<noteq> Fin 0" by simp
  from accept_spike[OF assms(1,2) this, of "stl (shrinking i)"] assms(3)
  show ?thesis by (simp add: normal_draw shrinking_sel)
qed

lemma adapt_loop_spike:
  assumes "logTarget s = spike_target" and "currentState s = Fin 0"
    and "\<not> flt (stepSize s) (Fin 0)"
  shows "\<exists>r' s'. adapt_loop (replicate k 1) r s (shrinking i) = (Inr r', s', shrinking (i + k))
           \<and> stepSize s' = (fdiv2 ^^ k) (stepSize s)"
  using assms
proof (induction k arbitrary: r s i)
  case 0
  then show ?case by simp
next
  case (Suc k)
  let ?s1 = "s\<lparr>samples := samples s @ [Fin 0]\<rparr>"
  let ?s2 = "retune (Fin 0) ?s1"
  have s2: "?s2 = ?s1\<lparr>stepSize := fdiv2 (stepSize s)\<rparr>"
    by (simp add: retune_def del: fdiv2.simps)
  have "logTarget ?s2 = spike_target" "currentState ?s2 = Fin 0"
    "\<not> flt (stepSize ?s2) (Fin 0)"
    using Suc.prems fdiv2_not_negative[of "stepSize s"] unfolding s2 by simp_all
  from Suc.IH[OF this, of "PyFloat (Fin 0)" "Suc i"]
  obtain r' s' where
    "adapt_loop (replicate k 1) (PyFloat (Fin 0)) ?s2 (shrinking (Suc i)) =
       (Inr r', s', shrinking (Suc i + k))"
    and "stepSize s' = (fdiv2 ^^ k) (stepSize ?s2)"
    by blast
  moreover have "stepSize ?s2 = fdiv2 (stepSize s)" unfolding s2 by simp
  ultimately show ?case
    using block_spike[OF Suc.prems, of i]
    by (simp add: int_truediv_def funpow_swap1 del: fdiv2.simps)
qed

lemma dbl_tiny: "dbl tiny = Fin 0"
  using tiny_pos tiny_less_half one_less_huge by (simp add: dbl_def)

lemma halving:
  "k \<le> 1074 \<Longrightarrow> (fdiv2 ^^ k) (Fin 1) = Fin (1 / 2 ^ k)"
proof (induction k)
  case 0
  then show ?case by simp
next
  case (Suc k)
  then have ih: "(fdiv2 ^^ k) (Fin 1) = Fin (1 / 2 ^ k)" by simp
  have pos: "0 < 1 / (2::real) ^ Suc k" by simp
  have "(2::real) ^ Suc k < 2 ^ 1075"
    using Suc.prems by (intro power_strict_increasing) simp_all
  then have "1 / (2::real) ^ 1075 < 1 / 2 ^ Suc k"
    by (intro divide_strict_left_mono) simp_all
  then have lo: "tiny < \<bar>1 / (2::real) ^ Suc k\<bar>"
    unfolding tiny_def abs_of_pos[OF pos] .
  have "(1::real) \<le> 2 ^ Suc k" by (rule two_realpow_ge_one)
  then have "1 / (2::real) ^ Suc k \<le> 1" by (simp add: field_simps)
  then have hi: "\<bar>1 / (2::real) ^ Suc k\<bar> < huge"
    unfolding abs_of_pos[OF pos] using one_less_huge by linarith
  have "fdiv2 (Fin (1 / 2 ^ k)) = dbl (1 / 2 ^ Suc k)" by (simp add: mult.commute)
  with dbl_id[OF lo hi] ih show ?case by simp
qed

lemma halving_underflow: "(fdiv2 ^^ 1075) (Fin 1) = Fin 0"
proof -
  have n: "(1075::nat) = Suc 1074" by simp
  have h: "(fdiv2 ^^ 1074) (Fin 1) = Fin (1 / 2 ^ 1074)"
    by (rule halving) simp
  have t: "1 / (2::real) ^ 1074 / 2 = tiny"
    unfolding tiny_def n by (simp only: power_Suc divide_divide_eq_left mult.commute)
  have "(fdiv2 ^^ 1075) (Fin 1) = fdiv2 ((fdiv2 ^^ 1074) (Fin 1))"
    by (simp only: n funpow.simps o_apply)
  also have "\<dots> = dbl tiny" by (simp only: h fdiv2.simps t)
  finally show ?thesis by (simp only: dbl_tiny)
qed

lemma in_range_mono:
  assumes "in_range m x" and "m \<le> n"
  shows "in_range n x"
proof -
  from assms(1) obtain r where x: "x = Fin r" and r: "1 / 2 ^ m \<le> r" "r \<le> 2 ^ m"
    by (cases x) (auto simp: in_range_def)
  have p1: "(2::real) ^ m \<le> 2 ^ n" using assms(2) by (intro power_increasing) simp_all
  then have p2: "1 / (2::real) ^ n \<le> 1 / 2 ^ m"
    by (intro divide_left_mono) simp_all
  from r p1 p2 have "1 / 2 ^ n \<le> r" "r \<le> 2 ^ n" by linarith+
  with x show ?thesis by (simp add: in_range_def)
qed

lemma in_range_bounds:
  assumes "n \<le> 1023" and "1 / 2 ^ n \<le> r" and "r \<le> 2 ^ n"
  shows "tiny < \<bar>r\<bar>" and "\<bar>r\<bar> < huge"
proof -
  have "0 < 1 / (2::real) ^ n" by simp
  with assms(2) have pos: "0 < r" by linarith
  have "(2::real) ^ n < 2 ^ 1075" using assms(1) by (intro power_strict_increasing) simp_all
  then have "tiny < 1 / 2 ^ n"
    unfolding tiny_def by (intro divide_strict_left_mono) simp_all
  with assms(2) pos show "tiny < \<bar>r\<bar>" by linarith
  have "(2::real) ^ n < huge"
    unfolding huge_def using assms(1) by (intro power_strict_increasing) simp_all
  with assms(3) pos show "\<bar>r\<bar> < huge" by linarith
qed

lemma in_range_fdiv2:
  assumes "in_range n x" and "n < 1023"
  shows "in_range (Suc n) (fdiv2 x)"
proof -
  from assms(1) obtain r where x: "x = Fin r" and r: "1 / 2 ^ n \<le> r" "r \<le> 2 ^ n"
    by (cases x) (auto simp: in_range_def)
  have e: "1 / (2::real) ^ Suc n = (1 / 2 ^ n) / 2" "(2::real) ^ Suc n = 2 * 2 ^ n"
    by simp_all
  have p: "(0::real) < 2 ^ n" by simp
  from r p have lo: "1 / 2 ^ Suc n \<le> r / 2" and hi: "r / 2 \<le> 2 ^ Suc n"
    unfolding e by linarith+
  from assms(2) have "Suc n \<le> 1023" by simp
  from in_range_bounds[OF this lo hi] have "dbl (r / 2) = Fin (r / 2)" by (rule dbl_id)
  with x lo hi show ?thesis by (simp only: in_range_def fdiv2.simps pyfloat.case simp_thms)
qed

lemma in_range_fmul2:
  assumes "in_range n x" and "n < 1023"
  shows "in_range (Suc n) (fmul2 x)"
proof -
  from assms(1) obtain r where x: "x = Fin r" and r: "1 / 2 ^ n \<le> r" "r \<le> 2 ^ n"
    by (cases x) (auto simp: in_range_def)
  have e: "1 / (2::real) ^ Suc n = (1 / 2 ^ n) / 2" "(2::real) ^ Suc n = 2 * 2 ^ n"
    by simp_all
  have p: "0 < 1 / (2::real) ^ n" by simp
  from r p have lo: "1 / 2 ^ Suc n \<le> r * 2" and hi: "r * 2 \<le> 2 ^ Suc n"
    unfolding e by linarith+
  from assms(2) have "Suc n \<le> 1023" by simp
  from in_range_bounds[OF this lo hi] have "dbl (r * 2) = Fin (r * 2)" by (rule dbl_id)
  with x lo hi show ?thesis by (simp only: in_range_def fmul2.simps pyfloat.case simp_thms)
qed

lemma retune_cases:
  "stepSize (retune rate s) = stepSize s \<or> stepSize (retune rate s) = fdiv2 (stepSize s) \<or>
   stepSize (retune rate s) = fmul2 (stepSize s)"
  by (simp add: retune_def)

lemma retune_in_range:
  assumes "in_range n (stepSize s)" and "n < 1023"
  shows "in_range (Suc n) (stepSize (retune rate s))"
  using retune_cases[of rate s] in_range_fdiv2[OF assms] in_range_fmul2[OF assms]
    in_range_mono[OF assms(1), of "Suc n"]
  by auto

lemma adapt_loop_in_range:
  "adapt_loop bs r s g = (out, s', g') \<Longrightarrow> in_range n (stepSize s) \<Longrightarrow>
   n + length bs \<le> 1023 \<Longrightarrow> in_range (n + length bs) (stepSize s')"
proof (induction bs arbitrary: r s g n)
  case Nil
  then show ?case by simp
next
  case (Cons b bs)
  obtain o1 s1 g1 where bl: "block_loop (nat b) 0 s g = (o1, s1, g1)"
    by (cases "block_loop (nat b) 0 s g") auto
  from block_loop_frame[OF bl] Cons.prems(2) have r1: "in_range n (stepSize s1)" by simp
  have stop: "in_range (n + length (b # bs)) (stepSize s1)"
    by (rule in_range_mono[OF r1]) simp
  show ?case
  proof (cases o1)
    case (Inl e)
    with bl Cons.prems(1) stop show ?thesis by auto
  next
    case (Inr a)
    show ?thesis
    proof (cases "int_truediv a b")
      case (Inl e)
      with bl Inr Cons.prems(1) stop show ?thesis by auto
    next
      case (Inr q)
      with bl \<open>o1 = Inr a\<close> Cons.prems(1)
      have rec: "adapt_loop bs (PyFloat q) (retune q s1) g1 = (out, s', g')" by simp
      from Cons.prems(3) have "n < 1023" by simp
      from retune_in_range[OF r1 this]
      have "in_range (Suc n) (stepSize (retune q s1))" .
      from Cons.IH[OF rec this] Cons.prems(3) show ?thesis by simp
    qed
  qed
qed

lemma adapt_in_range:
  assumes "adapt s bs g = (out, s', g')" and "in_range n (stepSize s)"
    and "n + length bs \<le> 1023"
  shows "in_range (n + length bs) (stepSize s')"
proof -
  obtain o1 s1 g1 where al: "adapt_loop bs (PyInt 0) s g = (o1, s1, g1)"
    by (cases "adapt_loop bs (PyInt 0) s g") auto
  from adapt_loop_in_range[OF al assms(2,3)]
  have "in_range (n + length bs) (stepSize s1)" .
  moreover from al assms(1) have "stepSize s' = stepSize s1"
    by (cases o1) (auto simp: adapt_def)
  ultimately show ?thesis by simp
qed

lemma sample_step_size: "sample s n g = (out, s', g') \<Longrightarrow> stepSize s' = stepSize s"
  using sample_loop_frame[of "nat n" s g out s' g'] by (simp add: sample_def)

lemma perform_in_range:
  assumes "perform c s g = (out, s', g')" and "in_range n (stepSize s)"
    and "n + blocks c \<le> 1023"
  shows "in_range (n + blocks c) (stepSize s')"
proof (cases c)
  case (Adapt bs)
  with assms adapt_in_range[of s bs g out s' g' n] show ?thesis by simp
next
  case (Sample k)
  with assms sample_step_size[of s k g out s' g'] show ?thesis by simp
qed

lemma run_in_range:
  "run cs s g = (out, s', g') \<Longrightarrow> in_range n (stepSize s) \<Longrightarrow>
   n + sum_list (map blocks cs) \<le> 1023 \<Longrightarrow>
   in_range (n + sum_list (map blocks cs)) (stepSize s')"
proof (induction cs arbitrary: s g n)
  case Nil
  then show ?case by simp
next
  case (Cons c cs)
  obtain o1 s1 g1 where p: "perform c s g = (o1, s1, g1)"
    by (cases "perform c s g") auto
  from Cons.prems(3) have b: "n + blocks c \<le> 1023" by simp
  note r1 = perform_in_range[OF p Cons.prems(2) b]
  show ?case
  proof (cases o1)
    case (Inl e)
    with p Cons.prems(1) have "s' = s1" by simp
    with in_range_mono[OF r1, of "n + sum_list (map blocks (c # cs))"] show ?thesis by simp
  next
    case (Inr v)
    with p Cons.prems(1) have "run cs s1 g1 = (out, s', g')" by simp
    from Cons.IH[OF this r1] Cons.prems(3) show ?thesis by (simp add: add.assoc)
  qed
qed

lemma adapt_single_block:
  assumes "adapt s [L] g = (out, t, h)"
  shows "stepSize t = stepSize s \<or> stepSize t = fdiv2 (stepSize s) \<or>
         stepSize t = fmul2 (stepSize s)"
proof -
  obtain o1 s1 g1 where bl: "block_loop (nat L) 0 s g = (o1, s1, g1)"
    by (cases "block_loop (nat L) 0 s g") auto
  from block_loop_frame[OF bl] have st: "stepSize s1 = stepSize s" by simp
  show ?thesis
  proof (cases o1)
    case (Inl e)
    with bl assms st show ?thesis by (simp add: adapt_def)
  next
    case (Inr a)
    show ?thesis
    proof (cases "int_truediv a L")
      case (Inl e)
      with bl Inr assms st show ?thesis by (simp add: adapt_def)
    next
      case (Inr q)
      with bl \<open>o1 = Inr a\<close> assms have "stepSize t = stepSize (retune q s1)"
        by (auto simp: adapt_def)
      with retune_cases[of q s1] st show ?thesis by simp
    qed
  qed
qed


lemma adapt_flat_1:
  "adapt (init flat_target (Fin 0)) [1] halves =
     (Inr (),
      (init flat_target (Fin 0))\<lparr>currentState := Fin (1 / 2), stepSize := Fin 2,
         samples := [Fin 0, Fin (1 / 2)], acceptanceRate := Some (PyFloat (Fin 1))\<rparr>,
      halves)"
  unfolding adapt_def adapt_loop_flat_1 by simp



end
